theory Spec2Isabelle
  imports Main "HOL-Library.Sublist" "HOL-Library.AList" "HOL-Library.Word"
    "HOL-Library.Code_Target_Nat"
begin

section \<open>Strings (package strings)\<close>

text \<open>
  A Go string is a sequence of bytes; it is modelled as a \<open>string\<close> (a list of 8-bit
  characters).  \<open>Index s substr\<close> is \<open>strings.Index\<close>: the position of the first
  occurrence of \<open>substr\<close> in \<open>s\<close>, or \<open>-1\<close> when there is none.
\<close>

fun Index :: "string \<Rightarrow> string \<Rightarrow> int" where
  "Index [] substr = (if substr = [] then 0 else - 1)"
| "Index (c # cs) substr =
     (if prefix substr (c # cs) then 0
      else (let i = Index cs substr in if i = - 1 then - 1 else i + 1))"

text \<open>\<open>strings.LastIndex\<close>: the position of the last occurrence, which is the first
  occurrence of the reversed pattern in the reversed string, counted from the end.\<close>

definition LastIndex :: "string \<Rightarrow> string \<Rightarrow> int" where
  "LastIndex s substr =
     (let i = Index (rev s) (rev substr) in
      if i = - 1 then - 1 else int (length s) - i - int (length substr))"

definition TrimPrefix :: "string \<Rightarrow> string \<Rightarrow> string" where
  "TrimPrefix s p = (if prefix p s then drop (length p) s else s)"

text \<open>The first element of \<open>strings.SplitN(s, "\n", 2)\<close>: the text before the first
  newline, or all of \<open>s\<close> when it has none.\<close>

definition SplitN_2_first :: "string \<Rightarrow> string" where
  "SplitN_2_first s =
     (let i = Index s [CHR 0x0A] in if i = - 1 then s else take (nat i) s)"

text \<open>
  \<open>first_occurrence sub s pre suf\<close> says that \<open>s\<close> is \<open>pre\<close>, then \<open>sub\<close>, then
  \<open>suf\<close>, and that no occurrence of \<open>sub\<close> in \<open>s\<close> starts further left.
\<close>

definition first_occurrence :: "string \<Rightarrow> string \<Rightarrow> string \<Rightarrow> string \<Rightarrow> bool" where
  "first_occurrence sub s pre suf \<longleftrightarrow>
     s = pre @ sub @ suf
     \<and> (\<forall>pre' suf'. s = pre' @ sub @ suf' \<longrightarrow> length pre \<le> length pre')"

section \<open>Checksums and number formatting (packages hash/adler32 and fmt)\<close>

text \<open>
  Adler-32 as \<open>hash/adler32\<close> computes it: two sums modulo 65521, \<open>s1\<close> starting at 1
  and \<open>s2\<close> at 0, every byte added to \<open>s1\<close> and every new \<open>s1\<close> to \<open>s2\<close>; the
  checksum is \<open>s2 << 16 | s1\<close>, a \<open>uint32\<close>.
\<close>

fun adler32_update :: "nat \<times> nat \<Rightarrow> string \<Rightarrow> nat \<times> nat" where
  "adler32_update (s1, s2) [] = (s1, s2)"
| "adler32_update (s1, s2) (x # p) =
     (let s1' = (s1 + of_char x) mod 65521
      in adler32_update (s1', (s2 + s1') mod 65521) p)"

definition adler32_Checksum :: "string \<Rightarrow> 32 word" where
  "adler32_Checksum p =
     (case adler32_update (1, 0) p of (s1, s2) \<Rightarrow> word_of_nat (s2 * 65536 + s1))"

definition hexdigit :: "nat \<Rightarrow> char" where
  "hexdigit d = ''0123456789abcdef'' ! d"

text \<open>The verb \<open>%x\<close> on an unsigned integer: lowercase hexadecimal, no leading zeros.\<close>

fun fmt_x :: "nat \<Rightarrow> string" where
  "fmt_x n = (if n < 16 then [hexdigit n] else fmt_x (n div 16) @ [hexdigit (n mod 16)])"

declare fmt_x.simps [simp del]

text \<open>Hexadecimal of a fixed width: the \<open>k\<close> lowest hexadecimal digits, zero-padded.\<close>

fun fmt_x_fixed :: "nat \<Rightarrow> nat \<Rightarrow> string" where
  "fmt_x_fixed 0 n = []"
| "fmt_x_fixed (Suc k) n = fmt_x_fixed k (n div 16) @ [hexdigit (n mod 16)]"

text \<open>The verb \<open>%d\<close>: decimal, with a minus sign for a negative integer.\<close>

fun fmt_d_nat :: "nat \<Rightarrow> string" where
  "fmt_d_nat n =
     (if n < 10 then [char_of (48 + n)] else fmt_d_nat (n div 10) @ [char_of (48 + n mod 10)])"

declare fmt_d_nat.simps [simp del]

definition fmt_d :: "int \<Rightarrow> string" where
  "fmt_d i = (if i < 0 then CHR ''-'' # fmt_d_nat (nat (- i)) else fmt_d_nat (nat i))"

text \<open>Reading numerals back, to state what the formatted text denotes.\<close>

definition hexval :: "char \<Rightarrow> nat" where
  "hexval c = (if of_char c < (58::nat) then of_char c - 48 else of_char c - 87)"

definition parse_hex :: "string \<Rightarrow> nat" where
  "parse_hex cs = foldl (\<lambda>acc c. 16 * acc + hexval c) 0 cs"


section \<open>Stack frames and path normalisation (stack.go)\<close>

definition knownFilePathPatterns :: "string list" where
  "knownFilePathPatterns =
     [''github.com/'', ''code.google.com/'', ''bitbucket.org/'', ''launchpad.net/'']"

record Frame =
  Filename :: string
  Method :: string
  Line :: int

type_synonym Stack = "Frame list"

text \<open>The \<open>for _, pattern := range knownFilePathPatterns\<close> loop of \<open>shortenFilePath\<close>,
  with the \<open>return s\<close> that follows it.\<close>

fun shortenLoop :: "string list \<Rightarrow> string \<Rightarrow> string" where
  "shortenLoop [] s = s"
| "shortenLoop (pattern # rest) s =
     (let idx = Index s pattern in
      if idx \<noteq> - 1 then drop (nat idx) s else shortenLoop rest s)"

definition shortenFilePath :: "string \<Rightarrow> string" where
  "shortenFilePath s =
     (let idx = Index s ''/src/pkg/'' in
      if idx \<noteq> - 1 then drop (nat (idx + 5)) s
      else shortenLoop knownFilePathPatterns s)"

text \<open>
  For comparison with \<open>shortenLoop\<close>, the second case as the specification words it:
  the hosting markers taken as a set, and the path cut at the leftmost place where any
  of them occurs.  \<open>leftmost_marker\<close> is that place, or \<open>-1\<close> when no marker occurs.
\<close>

definition leftmost_marker :: "string \<Rightarrow> int" where
  "leftmost_marker s =
     (case filter (\<lambda>idx. idx \<noteq> - 1) (map (Index s) knownFilePathPatterns) of
        [] \<Rightarrow> - 1
      | idx # idxs \<Rightarrow> fold min idxs idx)"

definition cut_at_leftmost_marker :: "string \<Rightarrow> string" where
  "cut_at_leftmost_marker s =
     (let idx = leftmost_marker s in if idx \<noteq> - 1 then drop (nat idx) s else s)"

section \<open>Values, the environment and the package state (rollbar.go)\<close>

text \<open>
  A Go map is modelled as an association list: \<open>map_of\<close> reads a key, \<open>AList.update\<close>
  assigns one (in place when the key is present, appended otherwise), and the order of the
  list stands for the order in which \<open>range\<close> visits the keys, which Go leaves open.
  \<open>Values\<close> is \<open>map[string][]string\<close> (\<open>url.Values\<close>, \<open>http.Header\<close>); \<open>jvalue\<close> is
  what the \<open>interface{}\<close> entries of a report hold.
\<close>

type_synonym Values = "(string \<times> string list) list"

datatype jvalue =
    JString string
  | JInt int
  | JStrings "string list"
  | JFrames "Frame list"
  | JMap "(string \<times> jvalue) list"

datatype http_result = PostFailed string | Response int string

text \<open>
  What the code reads from outside the package: the goroutine's call stack as
  \<open>runtime.Caller\<close> sees it from inside \<open>BuildStack\<close> (program counter, file and line;
  index 0 is \<open>BuildStack\<close> itself), what \<open>runtime.Caller\<close> reports for a negative
  index (frames of the runtime, \<open>runtime.Caller\<close> itself at \<open>-1\<close>; only negative
  arguments of \<open>runtime_frames\<close> are read), the symbol table, the clock, the host name, the
  platform, and the library calls \<open>json.Marshal\<close> (the error text or the encoding),
  \<open>http.Post\<close> (a transport error, or a status code with its status line) and
  \<open>url.Values.Encode\<close>.
\<close>

record Runtime =
  callers :: "(nat \<times> string \<times> int) list"
  runtime_frames :: "int \<Rightarrow> (nat \<times> string \<times> int) option"
  FuncForPC :: "nat \<Rightarrow> string option"
  Now_Unix :: int
  Hostname :: string
  GOOS :: string
  Marshal :: "jvalue \<Rightarrow> string + string"
  http_Post :: "string \<Rightarrow> string \<Rightarrow> http_result"
  Encode :: "Values \<Rightarrow> string"

text \<open>
  The package variables, and the world they act on.  \<open>FilterFields\<close> is the compiled
  pattern, held as its \<open>Match\<close> method.  \<open>bodyChannel\<close> is the content of the buffered
  channel, oldest first, and \<open>chan_cap\<close> the capacity it was made with; \<open>waitGroup\<close> is
  the counter of the \<open>sync.WaitGroup\<close>, which is never negative.  \<open>heap\<close> holds the map
  objects that are passed by reference, \<open>heap_next\<close> being the next free address;
  \<open>os_Stderr\<close> is what was written to standard error and \<open>http_posts\<close> the POST requests
  made so far (endpoint and payload).
\<close>

record State =
  Token :: string
  Environment :: string
  Endpoint :: string
  Buffer :: int
  FilterFields :: "string \<Rightarrow> bool"
  bodyChannel :: "jvalue list"
  chan_cap :: nat
  waitGroup :: nat
  heap :: "nat \<Rightarrow> Values"
  heap_next :: nat
  os_Stderr :: "string list"
  http_posts :: "(string \<times> string) list"

text \<open>A call returns, or stays blocked on the channel, or panics.\<close>

datatype 'a outcome = Returned 'a | Blocked 'a | Panicked string

record GoError =
  TypeOf_String :: string
  Error_text :: string

text \<open>\<open>r.Form\<close> is a reference to a map object, or nil; \<open>r.URL.Query()\<close> parses the
  query string into a new map at every call.\<close>

record Request =
  URL_String :: string
  URL_Query :: Values
  r_Method :: string
  Header :: Values
  Form :: "nat option"

definition NAME :: string where "NAME = ''go-rollbar''"
definition VERSION :: string where "VERSION = ''0.2.0''"
definition FILTERED :: string where "FILTERED = ''[FILTERED]''"

text \<open>\<open>regexp.MustCompile("password|secret|token")\<close>: an alternation of three literals.
  \<open>Match\<close> looks for a match anywhere in its argument, and nothing in the pattern folds
  case.\<close>

definition FilterFields_default :: "string \<Rightarrow> bool" where
  "FilterFields_default b \<longleftrightarrow>
     Index b ''password'' \<noteq> - 1 \<or> Index b ''secret'' \<noteq> - 1 \<or> Index b ''token'' \<noteq> - 1"

text \<open>The variables as declared, and \<open>init\<close>: the channel is made with the capacity
  \<open>Buffer\<close> has at that moment.  The goroutine \<open>init\<close> starts is \<open>worker_step\<close> below,
  repeated.\<close>

definition init :: State where
  "init = \<lparr> Token = [], Environment = ''development'',
            Endpoint = ''https://api.rollbar.com/api/1/item/'', Buffer = 1000,
            FilterFields = FilterFields_default, bodyChannel = [], chan_cap = 1000,
            waitGroup = 0, heap = (\<lambda>_. []), heap_next = 0, os_Stderr = [],
            http_posts = [] \<rparr>"

subsection \<open>Stack walker\<close>

text \<open>\<open>runtime.Caller(i)\<close>; \<open>ok\<close> is false beyond the top of the stack.  A negative
  \<open>i\<close> reaches below \<open>BuildStack\<close>, into the runtime.\<close>

definition Caller :: "Runtime \<Rightarrow> int \<Rightarrow> (nat \<times> string \<times> int) option" where
  "Caller rt i =
     (if i < 0 then runtime_frames rt i
      else if nat i < length (callers rt) then Some (callers rt ! nat i)
      else None)"

text \<open>\<open>os.PathSeparator\<close> is \<open>/\<close>.\<close>

definition functionName :: "Runtime \<Rightarrow> nat \<Rightarrow> string" where
  "functionName rt pc =
     (case FuncForPC rt pc of
        None \<Rightarrow> ''???''
      | Some name \<Rightarrow> (let end_idx = LastIndex name ''/'' in drop (nat (end_idx + 1)) name))"

function BuildStack_loop :: "Runtime \<Rightarrow> int \<Rightarrow> Stack \<Rightarrow> Stack" where
  "BuildStack_loop rt i stack =
     (case Caller rt i of
        None \<Rightarrow> stack
      | Some (pc, file, line) \<Rightarrow>
          BuildStack_loop rt (i + 1)
            (stack @ [\<lparr> Filename = shortenFilePath file, Method = functionName rt pc,
                        Line = line \<rparr>]))"
  by pat_completeness auto
termination
  by (relation "measure (\<lambda>(rt, i, stack). nat (int (length (callers rt)) - i))")
     (auto simp: Caller_def split: if_splits)

declare BuildStack_loop.simps [simp del]

definition BuildStack :: "Runtime \<Rightarrow> int \<Rightarrow> Stack" where
  "BuildStack rt skip = BuildStack_loop rt skip []"

subsection \<open>Fingerprint\<close>

text \<open>
  Modelled from the spec: the canonical text of a frame inside \<open>Stack.Fingerprint\<close>, a
  method that \<open>errorBody\<close> calls and that is not among the source files.  The
  specification has the fingerprint made from every frame's file name, function and
  line, in this order; the line is written in decimal.
\<close>

definition frame_text :: "Frame \<Rightarrow> string" where
  "frame_text f = Filename f @ Method f @ fmt_d (Line f)"

text \<open>
  Modelled from the spec: the method \<open>Stack.Fingerprint\<close>, which is not among the source
  files.  The specification has it concatenate the text of every frame in stack order,
  run the result through a 32-bit checksum, the same one as the exception class uses
  (which is Adler-32 in \<open>errorClass\<close>), and write the checksum as lowercase hexadecimal
  of fixed width.
\<close>

definition Fingerprint :: "Stack \<Rightarrow> string" where
  "Fingerprint stack = fmt_x_fixed 8 (unat (adler32_Checksum (concat (map frame_text stack))))"

text \<open>
  Modelled from the spec: \<open>Stack.Fingerprint\<close> once more, with the checksum left open.
  The specification names no algorithm for the method, which is not among the source
  files: it asks for a fast 32-bit checksum of the text of the frames, written as
  lowercase hexadecimal of fixed width.  \<open>Fingerprint\<close> above is the instance with
  Adler-32.
\<close>

definition Fingerprint_with :: "(string \<Rightarrow> 32 word) \<Rightarrow> Stack \<Rightarrow> string" where
  "Fingerprint_with checksum stack =
     fmt_x_fixed 8 (unat (checksum (concat (map frame_text stack))))"

subsection \<open>Diagnostics, the queue and the worker\<close>

text \<open>\<open>stderr(format, args...)\<close>, called with the message already formatted.\<close>

definition stderr :: "string \<Rightarrow> State \<Rightarrow> State" where
  "stderr msg s = s\<lparr> os_Stderr := os_Stderr s @ [''Rollbar error: '' @ msg @ [CHR 0x0A]] \<rparr>"

text \<open>\<open>waitGroup.Add(delta)\<close> panics when the counter would become negative;
  \<open>waitGroup.Done()\<close> is \<open>Add(-1)\<close>.\<close>

definition waitGroup_Add :: "int \<Rightarrow> State \<Rightarrow> State outcome" where
  "waitGroup_Add delta s =
     (if int (waitGroup s) + delta < 0 then Panicked ''sync: negative WaitGroup counter''
      else Returned (s\<lparr> waitGroup := nat (int (waitGroup s) + delta) \<rparr>))"

text \<open>\<open>bodyChannel <- body\<close>: the send completes when the buffer has room and blocks
  the caller otherwise.\<close>

definition chan_send :: "jvalue \<Rightarrow> State \<Rightarrow> State outcome" where
  "chan_send body s =
     (if length (bodyChannel s) < chan_cap s
      then Returned (s\<lparr> bodyChannel := bodyChannel s @ [body] \<rparr>)
      else Blocked s)"

definition push :: "jvalue \<Rightarrow> State \<Rightarrow> State outcome" where
  "push body s =
     (if int (length (bodyChannel s)) < Buffer s
      then (case waitGroup_Add 1 s of
              Returned s1 \<Rightarrow> chan_send body s1
            | other \<Rightarrow> other)
      else Returned (stderr ''buffer full, dropping error on the floor'' s))"

text \<open>\<open>post\<close>.  A request that \<open>http.Post\<close> was called for is recorded in
  \<open>http_posts\<close>, whatever came back; closing the response body changes nothing here.\<close>

definition post :: "Runtime \<Rightarrow> jvalue \<Rightarrow> State \<Rightarrow> State" where
  "post rt body s =
     (if length (Token s) = 0 then stderr ''empty token'' s
      else (case Marshal rt body of
              Inl err \<Rightarrow> stderr (''failed to encode payload: '' @ err) s
            | Inr jsonBody \<Rightarrow>
                (let s1 = s\<lparr> http_posts := http_posts s @ [(Endpoint s, jsonBody)] \<rparr> in
                 case http_Post rt (Endpoint s) jsonBody of
                   PostFailed err \<Rightarrow> stderr (''POST failed: '' @ err) s1
                 | Response StatusCode Status \<Rightarrow>
                     (if StatusCode \<noteq> 200 then stderr (''received response: '' @ Status) s1
                      else s1))))"

text \<open>One turn of the goroutine's loop \<open>for body := range bodyChannel\<close>: it waits on
  an empty channel, and otherwise takes the oldest report, posts it and calls
  \<open>waitGroup.Done()\<close>.\<close>

definition worker_step :: "Runtime \<Rightarrow> State \<Rightarrow> State outcome" where
  "worker_step rt s =
     (case bodyChannel s of
        [] \<Rightarrow> Blocked s
      | body # rest \<Rightarrow> waitGroup_Add (- 1) (post rt body (s\<lparr> bodyChannel := rest \<rparr>)))"

subsection \<open>Report builder\<close>

definition buildBody :: "Runtime \<Rightarrow> State \<Rightarrow> string \<Rightarrow> string \<Rightarrow> jvalue" where
  "buildBody rt s level title =
     JMap [(''access_token'', JString (Token s)),
           (''data'', JMap [(''environment'', JString (Environment s)),
                            (''title'', JString title),
                            (''level'', JString level),
                            (''timestamp'', JInt (Now_Unix rt)),
                            (''platform'', JString (GOOS rt)),
                            (''language'', JString ''go''),
                            (''server'', JMap [(''host'', JString (Hostname rt))]),
                            (''notifier'', JMap [(''name'', JString NAME),
                                                 (''version'', JString VERSION)])])]"

text \<open>\<open>body["data"].(map[string]interface{})\<close>: the type assertion panics when the
  entry is not a map.  \<open>with_data\<close> writes the map back, which the source does not need to
  do because \<open>data\<close> is a reference to the map inside \<open>body\<close>.\<close>

definition data_of :: "jvalue \<Rightarrow> (string \<times> jvalue) list option" where
  "data_of body =
     (case body of
        JMap m \<Rightarrow> (case map_of m ''data'' of Some (JMap data) \<Rightarrow> Some data | _ \<Rightarrow> None)
      | _ \<Rightarrow> None)"

definition with_data :: "(string \<times> jvalue) list \<Rightarrow> jvalue \<Rightarrow> jvalue" where
  "with_data data body =
     (case body of JMap m \<Rightarrow> JMap (AList.update ''data'' (JMap data) m) | _ \<Rightarrow> body)"

definition errorClass :: "GoError \<Rightarrow> string" where
  "errorClass err =
     (let class = TypeOf_String err in
      if class = [] then ''panic''
      else if class = ''*errors.errorString''
      then (let checksum = adler32_Checksum (Error_text err)
            in ''{'' @ fmt_x (unat checksum) @ ''}'')
      else TrimPrefix class ''*'')"

definition errorBody :: "Runtime \<Rightarrow> GoError \<Rightarrow> int \<Rightarrow> jvalue \<times> string" where
  "errorBody rt err skip =
     (let stack = BuildStack rt (3 + skip);
          fingerprint = Fingerprint stack;
          errBody = JMap [(''trace'',
                      JMap [(''frames'', JFrames stack),
                            (''exception'',
                               JMap [(''class'', JString (errorClass err)),
                                     (''message'', JString (Error_text err))])])]
      in (errBody, fingerprint))"

definition messageBody :: "string \<Rightarrow> jvalue" where
  "messageBody s = JMap [(''message'', JMap [(''body'', JString s)])]"

subsection \<open>Redaction of request parameters\<close>

text \<open>
  \<open>filterParams\<close> receives a reference to a map (or nil), visits its keys and assigns
  to the map it was given; it returns the reference it received.  The keys are visited
  in the order of the association list.
\<close>

definition filterParams_loop :: "(string \<Rightarrow> bool) \<Rightarrow> string list \<Rightarrow> Values \<Rightarrow> Values" where
  "filterParams_loop match keys vals =
     fold (\<lambda>key vs. if match key then AList.update key [FILTERED] vs else vs) keys vals"

definition filterParams :: "nat option \<Rightarrow> State \<Rightarrow> nat option \<times> State" where
  "filterParams vals s =
     (case vals of
        None \<Rightarrow> (None, s)
      | Some a \<Rightarrow>
          (Some a,
           s\<lparr> heap := (heap s)(a := filterParams_loop (FilterFields s)
                                       (map fst (heap s a)) (heap s a)) \<rparr>))"

text \<open>Reading a map through its reference; a nil map has no entries.\<close>

definition deref :: "State \<Rightarrow> nat option \<Rightarrow> Values" where
  "deref s vals = (case vals of None \<Rightarrow> [] | Some a \<Rightarrow> heap s a)"

definition flattenValues :: "Values \<Rightarrow> jvalue" where
  "flattenValues vals =
     JMap (fold (\<lambda>(k, v) result.
                   if length v = 1 then AList.update k (JString (v ! 0)) result
                   else AList.update k (JStrings v) result)
                vals [])"

text \<open>\<open>r.URL.Query()\<close> allocates the map it returns.\<close>

definition URL_Query_new :: "Request \<Rightarrow> State \<Rightarrow> nat option \<times> State" where
  "URL_Query_new r s =
     (Some (heap_next s),
      s\<lparr> heap := (heap s)(heap_next s := URL_Query r), heap_next := heap_next s + 1 \<rparr>)"

definition errorRequest :: "Runtime \<Rightarrow> Request \<Rightarrow> State \<Rightarrow> jvalue \<times> State" where
  "errorRequest rt r s =
     (let (query, s1) = URL_Query_new r s;
          (cleanQuery, s2) = filterParams query s1;
          url = URL_String r;
          method = r_Method r;
          headers = flattenValues (Header r);
          query_string = Encode rt (deref s2 cleanQuery);
          get = flattenValues (deref s2 cleanQuery);
          (form, s3) = filterParams (Form r) s2;
          post_params = flattenValues (deref s3 form)
      in (JMap [(''url'', JString url),
                (''method'', JString method),
                (''headers'', headers),
                (''query_string'', JString query_string),
                (''GET'', get),
                (''POST'', post_params)],
          s3))"

subsection \<open>Public entry points\<close>

definition ErrorWithStackSkip ::
    "Runtime \<Rightarrow> string \<Rightarrow> GoError \<Rightarrow> int \<Rightarrow> State \<Rightarrow> State outcome" where
  "ErrorWithStackSkip rt level err skip s =
     (let body = buildBody rt s level (Error_text err) in
      case data_of body of
        None \<Rightarrow> Panicked ''interface conversion''
      | Some data \<Rightarrow>
          (let (errBody, fingerprint) = errorBody rt err skip;
               data = AList.update ''body'' errBody data;
               data = AList.update ''fingerprint'' (JString fingerprint) data
           in push (with_data data body) s))"

definition Error :: "Runtime \<Rightarrow> string \<Rightarrow> GoError \<Rightarrow> State \<Rightarrow> State outcome" where
  "Error rt level err s = ErrorWithStackSkip rt level err 1 s"

definition RequestErrorWithStackSkip ::
    "Runtime \<Rightarrow> string \<Rightarrow> Request \<Rightarrow> GoError \<Rightarrow> int \<Rightarrow> State \<Rightarrow> State outcome" where
  "RequestErrorWithStackSkip rt level r err skip s =
     (let body = buildBody rt s level (Error_text err) in
      case data_of body of
        None \<Rightarrow> Panicked ''interface conversion''
      | Some data \<Rightarrow>
          (let (errBody, fingerprint) = errorBody rt err skip;
               data = AList.update ''body'' errBody data;
               data = AList.update ''fingerprint'' (JString fingerprint) data;
               (request, s1) = errorRequest rt r s;
               data = AList.update ''request'' request data
           in push (with_data data body) s1))"

definition RequestError ::
    "Runtime \<Rightarrow> string \<Rightarrow> Request \<Rightarrow> GoError \<Rightarrow> State \<Rightarrow> State outcome" where
  "RequestError rt level r err s = RequestErrorWithStackSkip rt level r err 1 s"

definition Message :: "Runtime \<Rightarrow> string \<Rightarrow> string \<Rightarrow> State \<Rightarrow> State outcome" where
  "Message rt level msg s =
     (let body = buildBody rt s level msg in
      case data_of body of
        None \<Rightarrow> Panicked ''interface conversion''
      | Some data \<Rightarrow>
          (let data = AList.update ''body'' (messageBody msg) data
           in push (with_data data body) s))"

text \<open>
  The file holds an earlier copy of the package as well (version 0.1.0, before the
  request functions were added).  What a report shows differs from the code above in
  two places: the notifier's version is \<open>0.1.0\<close>, and \<open>ErrorWithStackSkip\<close> and
  \<open>Message\<close> pass \<open>parts[0]\<close> of \<open>strings.SplitN(text, "\n", 2)\<close> to \<open>buildBody\<close> as
  the title.
\<close>

definition VERSION_0_1_0 :: string where "VERSION_0_1_0 = ''0.1.0''"

definition buildBody_0_1_0 :: "Runtime \<Rightarrow> State \<Rightarrow> string \<Rightarrow> string \<Rightarrow> jvalue" where
  "buildBody_0_1_0 rt s level title =
     JMap [(''access_token'', JString (Token s)),
           (''data'', JMap [(''environment'', JString (Environment s)),
                            (''title'', JString title),
                            (''level'', JString level),
                            (''timestamp'', JInt (Now_Unix rt)),
                            (''platform'', JString (GOOS rt)),
                            (''language'', JString ''go''),
                            (''server'', JMap [(''host'', JString (Hostname rt))]),
                            (''notifier'', JMap [(''name'', JString NAME),
                                                 (''version'', JString VERSION_0_1_0)])])]"

definition Message_0_1_0 :: "Runtime \<Rightarrow> string \<Rightarrow> string \<Rightarrow> State \<Rightarrow> State outcome" where
  "Message_0_1_0 rt level msg s =
     (let body = buildBody_0_1_0 rt s level (SplitN_2_first msg) in
      case data_of body of
        None \<Rightarrow> Panicked ''interface conversion''
      | Some data \<Rightarrow>
          (let data = AList.update ''body'' (messageBody msg) data
           in push (with_data data body) s))"

text \<open>Reading a report: the entry under a path of keys.\<close>

primrec get_path :: "string list \<Rightarrow> jvalue \<Rightarrow> jvalue option" where
  "get_path [] v = Some v"
| "get_path (k # ks) v =
     (case v of
        JMap m \<Rightarrow> (case map_of m k of None \<Rightarrow> None | Some v' \<Rightarrow> get_path ks v')
      | _ \<Rightarrow> None)"

subsection \<open>A sample environment\<close>

text \<open>An environment to run the model in: a call stack five frames deep above
  \<open>BuildStack\<close>, \<open>runtime.Caller\<close> itself below it, an encoder that returns a fixed
  document, and a transport that answers 200.\<close>

definition sample_Runtime :: Runtime where
  "sample_Runtime =
     \<lparr> callers = [(0, ''/home/foo/go/src/github.com/stvp/rollbar/stack.go'', 33),
                  (1, ''/home/foo/go/src/github.com/stvp/rollbar/rollbar.go'', 365),
                  (2, ''/home/foo/go/src/github.com/stvp/rollbar/rollbar.go'', 294),
                  (3, ''/home/foo/go/src/github.com/stvp/rollbar/rollbar.go'', 280),
                  (4, ''/home/foo/app/main.go'', 12),
                  (5, ''/usr/local/go/src/pkg/runtime/proc.c'', 220)],
       runtime_frames = (\<lambda>i. if i = - 1
                               then Some (6, ''/usr/local/go/src/pkg/runtime/extern.go'', 153)
                               else None),
       FuncForPC = (\<lambda>pc. if pc = 0 then Some ''github.com/stvp/rollbar.BuildStack''
                          else if pc = 1 then Some ''github.com/stvp/rollbar.errorBody''
                          else if pc = 2 then Some ''github.com/stvp/rollbar.ErrorWithStackSkip''
                          else if pc = 3 then Some ''github.com/stvp/rollbar.Error''
                          else if pc = 4 then Some ''main.main''
                          else if pc = 6 then Some ''runtime.Caller''
                          else None),
       Now_Unix = 1400000000,
       Hostname = ''localhost'',
       GOOS = ''linux'',
       Marshal = (\<lambda>body. Inr ''{}''),
       http_Post = (\<lambda>url payload. Response 200 ''200 OK''),
       Encode = (\<lambda>vals. []) \<rparr>"

definition sample_Request :: Request where
  "sample_Request =
     \<lparr> URL_String = ''http://localhost/login?token=t0'',
       URL_Query = [(''token'', [''t0''])],
       r_Method = ''POST'',
       Header = [(''Accept'', [''text/html'', ''text/plain''])],
       Form = Some 0 \<rparr>"

definition sample_error :: GoError where
  "sample_error = \<lparr> TypeOf_String = ''*errors.errorString'', Error_text = ''boom'' \<rparr>"


section \<open>Properties of the string functions\<close>


lemma Index_ge: "- 1 \<le> Index s sub"
  by (induction s) (auto simp: Let_def)

lemma Index_none_iff: "Index s sub = - 1 \<longleftrightarrow> \<not> sublist sub s"
proof (induction s)
  case Nil
  then show ?case by auto
next
  case (Cons c cs)
  have "0 \<le> Index cs sub + 1" using Index_ge [of cs sub] by simp
  with Cons show ?case
    by (auto simp: Let_def sublist_Cons_right)
qed

lemma sublist_Index: "sublist sub s \<longleftrightarrow> Index s sub \<noteq> - 1"
  by (simp add: Index_none_iff)

lemma Index_prefix_drop:
  "Index s sub \<noteq> - 1 \<Longrightarrow> prefix sub (drop (nat (Index s sub)) s)"
proof (induction s)
  case Nil
  then show ?case by (auto split: if_splits)
next
  case (Cons c cs)
  show ?case
  proof (cases "prefix sub (c # cs)")
    case True
    then show ?thesis by simp
  next
    case False
    with Cons.prems have ne: "Index cs sub \<noteq> - 1"
      by (auto simp: Let_def split: if_splits)
    then have "0 \<le> Index cs sub" using Index_ge [of cs sub] by simp
    then have "nat (Index cs sub + 1) = Suc (nat (Index cs sub))" by simp
    with False ne Cons.IH show ?thesis by (simp add: Let_def)
  qed
qed

lemma Index_le_occurrence:
  "s = pre @ sub @ suf \<Longrightarrow> Index s sub \<le> int (length pre)"
proof (induction s arbitrary: pre)
  case Nil
  then show ?case by simp
next
  case (Cons c cs)
  show ?case
  proof (cases pre)
    case Nil
    with Cons.prems have "prefix sub (c # cs)" by (simp add: prefix_def)
    then show ?thesis by simp
  next
    case (Cons p pre')
    with Cons.prems have "cs = pre' @ sub @ suf" by simp
    from Cons.IH [OF this] Cons show ?thesis by (simp add: Let_def)
  qed
qed

lemma Index_le_length: "Index s sub \<le> int (length s)"
  by (induction s) (auto simp: Let_def)


lemma Index_decompose:
  assumes "Index s sub \<noteq> - 1"
  shows "\<exists>suf. s = take (nat (Index s sub)) s @ sub @ suf
           \<and> drop (nat (Index s sub)) s = sub @ suf"
proof -
  from Index_prefix_drop [OF assms] obtain suf
    where d: "drop (nat (Index s sub)) s = sub @ suf"
    by (auto simp: prefix_def)
  have "s = take (nat (Index s sub)) s @ drop (nat (Index s sub)) s" by simp
  with d show ?thesis by metis
qed

lemma suffix_no_sublist: "\<not> sublist sub s \<Longrightarrow> suffix t s \<Longrightarrow> \<not> sublist sub t"
  using sublist_order.order_trans suffix_imp_sublist by blast

lemma shortenLoop_suffix: "suffix (shortenLoop ps s) s"
  by (induction ps) (auto simp: Let_def suffix_drop)

lemma shortenLoop_unchanged:
  "\<forall>p \<in> set ps. \<not> sublist p s \<Longrightarrow> shortenLoop ps s = s"
  by (induction ps) (auto simp: Let_def Index_none_iff)

lemma shortenLoop_first_pattern:
  assumes "\<forall>q \<in> set ps. \<not> sublist q s" and "sublist p s"
  shows "shortenLoop (ps @ p # qs) s = drop (nat (Index s p)) s"
  using assms by (induction ps) (auto simp: Let_def Index_none_iff)

lemma shortenLoop_idem: "shortenLoop ps (shortenLoop ps s) = shortenLoop ps s"
proof (induction ps)
  case Nil
  then show ?case by simp
next
  case (Cons p rest)
  show ?case
  proof (cases "Index s p = - 1")
    case True
    then have "\<not> sublist p s" by (simp add: Index_none_iff)
    then have "\<not> sublist p (shortenLoop rest s)"
      using shortenLoop_suffix suffix_no_sublist by blast
    then have "Index (shortenLoop rest s) p = - 1" by (simp add: Index_none_iff)
    with True Cons.IH show ?thesis by (simp add: Let_def)
  next
    case False
    let ?t = "drop (nat (Index s p)) s"
    from Index_prefix_drop [OF False] have "prefix p ?t" .
    then have "Index ?t p = 0" by (cases ?t) auto
    with False show ?thesis by (simp add: Let_def)
  qed
qed


lemma Index_first_occurrence:
  assumes "sublist sub s"
  shows "\<exists>suf. first_occurrence sub s (take (nat (Index s sub)) s) suf
           \<and> drop (nat (Index s sub)) s = sub @ suf"
proof -
  from assms have ne: "Index s sub \<noteq> - 1" by (simp add: Index_none_iff)
  from Index_decompose [OF ne] obtain suf
    where s: "s = take (nat (Index s sub)) s @ sub @ suf"
      and d: "drop (nat (Index s sub)) s = sub @ suf" by blast
  have ge: "0 \<le> Index s sub" using ne Index_ge [of s sub] by simp
  have "length (take (nat (Index s sub)) s) \<le> length pre'" if "s = pre' @ sub @ suf'" for pre' suf'
    using Index_le_occurrence [OF that] ge by simp
  with s d show ?thesis unfolding first_occurrence_def by blast
qed

lemma shortenFilePath_stdlib:
  assumes "sublist ''/src/pkg/'' s"
  shows "\<exists>pre suf. first_occurrence ''/src/pkg/'' s pre suf \<and> shortenFilePath s = ''pkg/'' @ suf"
proof -
  from Index_first_occurrence [OF assms] obtain suf
    where f: "first_occurrence ''/src/pkg/'' s (take (nat (Index s ''/src/pkg/'')) s) suf"
      and d: "drop (nat (Index s ''/src/pkg/'')) s = ''/src/pkg/'' @ suf" by blast
  from assms have ne: "Index s ''/src/pkg/'' \<noteq> - 1" by (simp add: Index_none_iff)
  then have ge: "0 \<le> Index s ''/src/pkg/''" using Index_ge [of s "''/src/pkg/''"] by simp
  have "drop (nat (Index s ''/src/pkg/'' + 5)) s = drop 5 (drop (nat (Index s ''/src/pkg/'')) s)"
    using ge by (simp add: nat_add_distrib add.commute)
  also have "\<dots> = ''pkg/'' @ suf" by (simp add: d)
  finally have "shortenFilePath s = ''pkg/'' @ suf"
    using ne by (simp add: shortenFilePath_def Let_def)
  with f show ?thesis by blast
qed

lemma shortenFilePath_hosting:
  assumes "\<not> sublist ''/src/pkg/'' s" and "knownFilePathPatterns = ps @ p # qs"
    and "\<forall>q \<in> set ps. \<not> sublist q s" and "sublist p s"
  shows "\<exists>pre suf. first_occurrence p s pre suf \<and> shortenFilePath s = p @ suf"
proof -
  from assms(1) have "Index s ''/src/pkg/'' = - 1" by (simp add: Index_none_iff)
  then have "shortenFilePath s = shortenLoop (ps @ p # qs) s"
    by (simp add: shortenFilePath_def assms(2))
  also have "\<dots> = drop (nat (Index s p)) s"
    by (rule shortenLoop_first_pattern [OF assms(3,4)])
  finally have "shortenFilePath s = drop (nat (Index s p)) s" .
  with Index_first_occurrence [OF assms(4)] show ?thesis by auto
qed

lemma shortenFilePath_unchanged:
  assumes "\<not> sublist ''/src/pkg/'' s" and "\<forall>p \<in> set knownFilePathPatterns. \<not> sublist p s"
  shows "shortenFilePath s = s"
proof -
  from assms(1) have "Index s ''/src/pkg/'' = - 1" by (simp add: Index_none_iff)
  then show ?thesis
    by (simp add: shortenFilePath_def shortenLoop_unchanged [OF assms(2)])
qed

text \<open>\<open>leftmost_marker\<close> is the least position at which a hosting marker occurs.\<close>


lemma leftmost_marker_none:
  "leftmost_marker s = - 1 \<longleftrightarrow> (\<forall>p \<in> set knownFilePathPatterns. \<not> sublist p s)"
proof -
  let ?found = "filter (\<lambda>idx. idx \<noteq> - 1) (map (Index s) knownFilePathPatterns)"
  show ?thesis
  proof (cases ?found)
    case Nil
    then have "\<forall>p \<in> set knownFilePathPatterns. Index s p = - 1"
      by (auto simp: filter_empty_conv)
    with Nil show ?thesis by (simp add: leftmost_marker_def Index_none_iff)
  next
    case (Cons idx idxs)
    have "fold min idxs idx = Min (set (idx # idxs))" by (rule Min.set_eq_fold [symmetric])
    moreover have "Min (set (idx # idxs)) \<in> set (idx # idxs)" by (rule Min_in) simp_all
    ultimately have "fold min idxs idx \<in> set ?found" using Cons by simp
    then have ne: "fold min idxs idx \<noteq> - 1" by simp
    from Cons have "idx \<in> set ?found" by simp
    then obtain p where "p \<in> set knownFilePathPatterns" and "Index s p \<noteq> - 1" by auto
    then have "\<exists>p \<in> set knownFilePathPatterns. sublist p s" by (auto simp: sublist_Index)
    with ne Cons show ?thesis by (simp add: leftmost_marker_def)
  qed
qed

lemma leftmost_marker_least:
  assumes "p \<in> set knownFilePathPatterns" and "sublist p s"
  shows "leftmost_marker s \<le> Index s p
         \<and> (\<exists>q \<in> set knownFilePathPatterns. sublist q s \<and> leftmost_marker s = Index s q)"
proof -
  let ?found = "filter (\<lambda>idx. idx \<noteq> - 1) (map (Index s) knownFilePathPatterns)"
  from assms have mem: "Index s p \<in> set ?found" by (auto simp: sublist_Index)
  then obtain idx idxs where c: "?found = idx # idxs" by (cases ?found) auto
  have "fold min idxs idx = Min (set (idx # idxs))" by (rule Min.set_eq_fold [symmetric])
  then have m: "leftmost_marker s = Min (set ?found)"
    by (simp add: leftmost_marker_def c)
  have "Min (set ?found) \<le> Index s p" using mem by (intro Min_le) simp_all
  moreover have "Min (set ?found) \<in> set ?found" using mem by (intro Min_in) auto
  then have "\<exists>q \<in> set knownFilePathPatterns. sublist q s \<and> Min (set ?found) = Index s q"
    by (auto simp: sublist_Index)
  ultimately show ?thesis using m by simp
qed

text \<open>
  Claim C5, as stated, cuts a path with hosting markers at the first marker in it.  On a
  path with a vendored package the code does not: \<open>bitbucket.org/\<close> comes first in the
  path, but \<open>github.com/\<close> comes first in \<open>knownFilePathPatterns\<close>, and the loop cuts
  at the first pattern it finds, so the path is cut at \<open>github.com/\<close>.
\<close>

theorem shortenFilePath_not_leftmost:
  "\<not> sublist ''/src/pkg/'' ''/go/src/bitbucket.org/a/vendor/github.com/b/c.go''
   \<and> cut_at_leftmost_marker ''/go/src/bitbucket.org/a/vendor/github.com/b/c.go''
        = ''bitbucket.org/a/vendor/github.com/b/c.go''
   \<and> shortenFilePath ''/go/src/bitbucket.org/a/vendor/github.com/b/c.go'' = ''github.com/b/c.go''
   \<and> shortenFilePath ''/go/src/bitbucket.org/a/vendor/github.com/b/c.go''
        \<noteq> cut_at_leftmost_marker ''/go/src/bitbucket.org/a/vendor/github.com/b/c.go''"
  by (simp add: sublist_Index shortenFilePath_def cut_at_leftmost_marker_def
      leftmost_marker_def knownFilePathPatterns_def)

text \<open>
  Claim C5, amended.  Path normalisation by cases.  If the path contains the
  standard-library marker \<open>/src/pkg/\<close>, everything before its first occurrence is cut,
  and of the marker the suffix \<open>pkg/\<close> is kept.  Otherwise, if the path contains a
  hosting marker, the first marker of \<open>knownFilePathPatterns\<close>, in the order of that list
  (\<open>github.com/\<close>, \<open>code.google.com/\<close>, \<open>bitbucket.org/\<close>, \<open>launchpad.net/\<close>), that
  occurs in the path is taken, and everything before its first occurrence is cut.
  Otherwise the path is returned as it is.  The four paths of the test table map as the
  claim says.
\<close>

theorem shortenFilePath_cases:
  "(sublist ''/src/pkg/'' s \<longrightarrow>
      (\<exists>pre suf. first_occurrence ''/src/pkg/'' s pre suf \<and> shortenFilePath s = ''pkg/'' @ suf))
   \<and> (\<not> sublist ''/src/pkg/'' s \<and> knownFilePathPatterns = ps @ p # qs
        \<and> (\<forall>q \<in> set ps. \<not> sublist q s) \<and> sublist p s \<longrightarrow>
      (\<exists>pre suf. first_occurrence p s pre suf \<and> shortenFilePath s = p @ suf))
   \<and> (\<not> sublist ''/src/pkg/'' s \<and> (\<forall>p \<in> set knownFilePathPatterns. \<not> sublist p s) \<longrightarrow>
      shortenFilePath s = s)
   \<and> shortenFilePath ''/usr/local/go/src/pkg/runtime/proc.c'' = ''pkg/runtime/proc.c''
   \<and> shortenFilePath ''/home/foo/go/src/github.com/stvp/rollbar.go'' = ''github.com/stvp/rollbar.go''
   \<and> shortenFilePath ''foo.go'' = ''foo.go''
   \<and> shortenFilePath [] = []"
proof -
  have e1: "shortenFilePath ''/usr/local/go/src/pkg/runtime/proc.c'' = ''pkg/runtime/proc.c''"
    by (simp add: shortenFilePath_def)
  have e2: "shortenFilePath ''/home/foo/go/src/github.com/stvp/rollbar.go'' = ''github.com/stvp/rollbar.go''"
    by (simp add: shortenFilePath_def knownFilePathPatterns_def)
  have e3: "shortenFilePath ''foo.go'' = ''foo.go''"
    by (simp add: shortenFilePath_def knownFilePathPatterns_def)
  have e4: "shortenFilePath [] = []"
    by (simp add: shortenFilePath_def knownFilePathPatterns_def)
  show ?thesis
    using shortenFilePath_stdlib [of s] shortenFilePath_hosting [of s ps p qs]
      shortenFilePath_unchanged [of s] e1 e2 e3 e4
    by blast
qed

theorem shortenFilePath_cases_witness:
  "sublist ''/src/pkg/'' ''/go/src/pkg/os/file.go''
   \<and> (\<exists>pre suf. ''/go/src/pkg/os/file.go'' = pre @ ''/src/pkg/'' @ suf
         \<and> shortenFilePath ''/go/src/pkg/os/file.go'' = ''pkg/'' @ suf)
   \<and> \<not> sublist ''/src/pkg/'' ''/go/src/bitbucket.org/a/b.go''
   \<and> knownFilePathPatterns = [''github.com/'', ''code.google.com/''] @ ''bitbucket.org/'' # [''launchpad.net/'']
   \<and> \<not> sublist ''github.com/'' ''/go/src/bitbucket.org/a/b.go''
   \<and> \<not> sublist ''code.google.com/'' ''/go/src/bitbucket.org/a/b.go''
   \<and> sublist ''bitbucket.org/'' ''/go/src/bitbucket.org/a/b.go''
   \<and> (\<exists>pre suf. ''/go/src/bitbucket.org/a/b.go'' = pre @ ''bitbucket.org/'' @ suf
         \<and> shortenFilePath ''/go/src/bitbucket.org/a/b.go'' = ''bitbucket.org/'' @ suf)
   \<and> \<not> sublist ''/src/pkg/'' ''main.go''
   \<and> \<not> sublist ''github.com/'' ''main.go'' \<and> \<not> sublist ''code.google.com/'' ''main.go''
   \<and> \<not> sublist ''bitbucket.org/'' ''main.go'' \<and> \<not> sublist ''launchpad.net/'' ''main.go''
   \<and> shortenFilePath ''main.go'' = ''main.go''"
proof -
  have a: "sublist ''/src/pkg/'' ''/go/src/pkg/os/file.go''"
    by (simp add: sublist_Index)
  have b: "\<not> sublist ''/src/pkg/'' ''/go/src/bitbucket.org/a/b.go''"
    by (simp add: sublist_Index)
  have c: "knownFilePathPatterns = [''github.com/'', ''code.google.com/''] @ ''bitbucket.org/'' # [''launchpad.net/'']"
    by (simp add: knownFilePathPatterns_def)
  have d: "\<forall>q \<in> set [''github.com/'', ''code.google.com/'']. \<not> sublist q ''/go/src/bitbucket.org/a/b.go''"
    by (simp add: sublist_Index)
  have e: "sublist ''bitbucket.org/'' ''/go/src/bitbucket.org/a/b.go''"
    by (simp add: sublist_Index)
  have f: "\<not> sublist ''/src/pkg/'' ''main.go''"
    by (simp add: sublist_Index)
  have g: "\<forall>p \<in> set knownFilePathPatterns. \<not> sublist p ''main.go''"
    by (simp add: knownFilePathPatterns_def sublist_Index)
  have g': "\<not> sublist ''github.com/'' ''main.go'' \<and> \<not> sublist ''code.google.com/'' ''main.go''
   \<and> \<not> sublist ''bitbucket.org/'' ''main.go'' \<and> \<not> sublist ''launchpad.net/'' ''main.go''"
    using g by (simp add: knownFilePathPatterns_def)
  have d': "\<not> sublist ''github.com/'' ''/go/src/bitbucket.org/a/b.go''
   \<and> \<not> sublist ''code.google.com/'' ''/go/src/bitbucket.org/a/b.go''"
    using d by simp
  have 1: "\<exists>pre suf. ''/go/src/pkg/os/file.go'' = pre @ ''/src/pkg/'' @ suf
         \<and> shortenFilePath ''/go/src/pkg/os/file.go'' = ''pkg/'' @ suf"
    using a shortenFilePath_cases [of "''/go/src/pkg/os/file.go''"]
    unfolding first_occurrence_def by blast
  have 2: "\<exists>pre suf. ''/go/src/bitbucket.org/a/b.go'' = pre @ ''bitbucket.org/'' @ suf
         \<and> shortenFilePath ''/go/src/bitbucket.org/a/b.go'' = ''bitbucket.org/'' @ suf"
    using b c d e
      shortenFilePath_cases [of "''/go/src/bitbucket.org/a/b.go''"
        "[''github.com/'', ''code.google.com/'']" "''bitbucket.org/''" "[''launchpad.net/'']"]
    unfolding first_occurrence_def by blast
  have 3: "shortenFilePath ''main.go'' = ''main.go''"
    using f g shortenFilePath_cases [of "''main.go''"] by blast
  show ?thesis
    using a b c d' e f g' 1 2 3 by blast
qed

text \<open>
  Claim C4, as stated: normalising twice is the same as normalising once.  It fails on a
  path with two standard-library markers: the first pass cuts at the first marker and
  leaves \<open>pkg/x/src/pkg/y\<close>, in which the second pass finds the other marker and cuts
  again.
\<close>

theorem shortenFilePath_not_idempotent:
  "shortenFilePath (shortenFilePath ''/src/pkg/x/src/pkg/y'') \<noteq> shortenFilePath ''/src/pkg/x/src/pkg/y''"
  by (simp add: shortenFilePath_def)

text \<open>
  Claim C4, amended.  Normalising twice is the same as normalising once for every path
  without the standard-library marker \<open>/src/pkg/\<close> (so for every path that is cut at a
  hosting marker or left alone), and for every path whose normal form contains no marker
  at all.
\<close>

theorem shortenFilePath_idempotent_amended:
  assumes "\<not> sublist ''/src/pkg/'' s
     \<or> (\<not> sublist ''/src/pkg/'' (shortenFilePath s)
         \<and> (\<forall>p \<in> set knownFilePathPatterns. \<not> sublist p (shortenFilePath s)))"
  shows "shortenFilePath (shortenFilePath s) = shortenFilePath s"
  using assms
proof
  assume n: "\<not> sublist ''/src/pkg/'' s"
  then have i: "Index s ''/src/pkg/'' = - 1" by (simp add: Index_none_iff)
  then have eq: "shortenFilePath s = shortenLoop knownFilePathPatterns s"
    by (simp add: shortenFilePath_def)
  have "\<not> sublist ''/src/pkg/'' (shortenLoop knownFilePathPatterns s)"
    using n shortenLoop_suffix suffix_no_sublist by blast
  then have "Index (shortenLoop knownFilePathPatterns s) ''/src/pkg/'' = - 1"
    by (simp add: Index_none_iff)
  then have "shortenFilePath (shortenLoop knownFilePathPatterns s)
      = shortenLoop knownFilePathPatterns (shortenLoop knownFilePathPatterns s)"
    by (simp add: shortenFilePath_def)
  with eq show ?thesis by (simp add: shortenLoop_idem)
next
  assume "\<not> sublist ''/src/pkg/'' (shortenFilePath s)
         \<and> (\<forall>p \<in> set knownFilePathPatterns. \<not> sublist p (shortenFilePath s))"
  then show ?thesis by (simp add: shortenFilePath_unchanged)
qed

theorem shortenFilePath_idempotent_amended_witness:
  "\<not> sublist ''/src/pkg/'' ''/home/foo/go/src/github.com/stvp/rollbar.go''
   \<and> shortenFilePath (shortenFilePath ''/home/foo/go/src/github.com/stvp/rollbar.go'')
       = shortenFilePath ''/home/foo/go/src/github.com/stvp/rollbar.go''"
proof -
  have a: "\<not> sublist ''/src/pkg/'' ''/home/foo/go/src/github.com/stvp/rollbar.go''"
    by (simp add: sublist_Index)
  show ?thesis
    using a shortenFilePath_idempotent_amended [of "''/home/foo/go/src/github.com/stvp/rollbar.go''"]
    by blast
qed


section \<open>The queue and the worker\<close>


lemma waitGroup_Add_1: "waitGroup_Add 1 s = Returned (s\<lparr> waitGroup := waitGroup s + 1 \<rparr>)"
  by (simp add: waitGroup_Add_def nat_add_distrib)

lemma waitGroup_Done:
  "0 < waitGroup s \<Longrightarrow> waitGroup_Add (- 1) s = Returned (s\<lparr> waitGroup := waitGroup s - 1 \<rparr>)"
  by (simp add: waitGroup_Add_def nat_diff_distrib')

lemma waitGroup_Done_panics:
  "waitGroup s = 0 \<Longrightarrow> waitGroup_Add (- 1) s = Panicked ''sync: negative WaitGroup counter''"
  by (simp add: waitGroup_Add_def)

lemma push_accepts:
  assumes "int (length (bodyChannel s)) < Buffer s" and "length (bodyChannel s) < chan_cap s"
  shows "push body s
           = Returned (s\<lparr> waitGroup := waitGroup s + 1, bodyChannel := bodyChannel s @ [body] \<rparr>)"
  using assms by (simp add: push_def waitGroup_Add_1 chan_send_def)

lemma push_drops:
  assumes "Buffer s \<le> int (length (bodyChannel s))"
  shows "push body s
           = Returned (s\<lparr> os_Stderr := os_Stderr s @
                [''Rollbar error: buffer full, dropping error on the floor'' @ [CHR 0x0A]] \<rparr>)"
  using assms by (simp add: push_def stderr_def)

lemma push_blocks:
  assumes "int (length (bodyChannel s)) < Buffer s" and "chan_cap s \<le> length (bodyChannel s)"
  shows "push body s = Blocked (s\<lparr> waitGroup := waitGroup s + 1 \<rparr>)"
  using assms by (simp add: push_def waitGroup_Add_1 chan_send_def)

text \<open>
  Claim C1, at a state the application reaches by raising \<open>Buffer\<close>.  \<open>init\<close> has made
  the channel with capacity 1000 before any other code can assign the variable.  With
  \<open>Buffer\<close> at 2000 and 1000 reports queued, \<open>push\<close> finds the queue below \<open>Buffer\<close>,
  raises the counter of the wait group, and then waits on the full channel: the caller
  is blocked, the report is neither queued nor dropped, and no line is written.
\<close>

theorem push_blocks_after_Buffer_raised:
  "push body (init\<lparr> Buffer := 2000, bodyChannel := replicate 1000 queued, waitGroup := 1000 \<rparr>)
     = Blocked (init\<lparr> Buffer := 2000, bodyChannel := replicate 1000 queued,
                      waitGroup := 1001 \<rparr>)"
  by (simp add: push_def waitGroup_Add_def chan_send_def init_def)

text \<open>
  While \<open>Buffer\<close> is not above the capacity the channel was made with (they are equal
  after \<open>init\<close>), \<open>push\<close> does what the specification says: when fewer than \<open>Buffer\<close>
  reports are queued, it returns with the report appended and the counter of the wait
  group raised by one, and nothing else changed; when \<open>Buffer\<close> reports or more are
  queued, it returns at once, and all it has done is write one line to standard error.
\<close>

theorem push_at_capacity:
  assumes "Buffer s \<le> int (chan_cap s)"
  shows "(int (length (bodyChannel s)) < Buffer s \<longrightarrow>
            push body s = Returned (s\<lparr> waitGroup := waitGroup s + 1,
                                       bodyChannel := bodyChannel s @ [body] \<rparr>))
       \<and> (Buffer s \<le> int (length (bodyChannel s)) \<longrightarrow>
            push body s = Returned (s\<lparr> os_Stderr := os_Stderr s @
                [''Rollbar error: buffer full, dropping error on the floor'' @ [CHR 0x0A]] \<rparr>))"
proof (intro conjI impI)
  assume lt: "int (length (bodyChannel s)) < Buffer s"
  with assms have "length (bodyChannel s) < chan_cap s" by simp
  with lt show "push body s = Returned (s\<lparr> waitGroup := waitGroup s + 1,
                                       bodyChannel := bodyChannel s @ [body] \<rparr>)"
    by (rule push_accepts)
next
  assume "Buffer s \<le> int (length (bodyChannel s))"
  then show "push body s = Returned (s\<lparr> os_Stderr := os_Stderr s @
                [''Rollbar error: buffer full, dropping error on the floor'' @ [CHR 0x0A]] \<rparr>)"
    by (rule push_drops)
qed

theorem push_at_capacity_witness:
  "Buffer init \<le> int (chan_cap init)
   \<and> int (length (bodyChannel init)) < Buffer init
   \<and> push (JString ''r'') init
        = Returned (init\<lparr> waitGroup := 1, bodyChannel := [JString ''r''] \<rparr>)
   \<and> Buffer (init\<lparr> bodyChannel := replicate 1000 (JString ''q''), waitGroup := 1000 \<rparr>)
        \<le> int (chan_cap (init\<lparr> bodyChannel := replicate 1000 (JString ''q''),
                                 waitGroup := 1000 \<rparr>))
   \<and> Buffer (init\<lparr> bodyChannel := replicate 1000 (JString ''q''), waitGroup := 1000 \<rparr>)
        \<le> int (length (bodyChannel (init\<lparr> bodyChannel := replicate 1000 (JString ''q''),
                                             waitGroup := 1000 \<rparr>)))
   \<and> push (JString ''r'') (init\<lparr> bodyChannel := replicate 1000 (JString ''q''),
                                   waitGroup := 1000 \<rparr>)
        = Returned (init\<lparr> bodyChannel := replicate 1000 (JString ''q''), waitGroup := 1000,
             os_Stderr := [''Rollbar error: buffer full, dropping error on the floor'' @ [CHR 0x0A]] \<rparr>)"
proof -
  have a: "Buffer init \<le> int (chan_cap init)" by (simp add: init_def)
  have b: "int (length (bodyChannel init)) < Buffer init" by (simp add: init_def)
  let ?full = "init\<lparr> bodyChannel := replicate 1000 (JString ''q''), waitGroup := 1000 \<rparr>"
  have c: "Buffer ?full \<le> int (chan_cap ?full)" by (simp add: init_def)
  have d: "Buffer ?full \<le> int (length (bodyChannel ?full))" by (simp add: init_def)
  have e: "os_Stderr ?full = [] \<and> waitGroup init = 0 \<and> bodyChannel init = []"
    by (simp add: init_def)
  from push_at_capacity [OF a, of "JString ''r''"] b
  have 1: "push (JString ''r'') init
        = Returned (init\<lparr> waitGroup := 1, bodyChannel := [JString ''r''] \<rparr>)"
    by (simp add: e)
  from push_at_capacity [OF c, of "JString ''r''"] d
  have 2: "push (JString ''r'') ?full
        = Returned (?full\<lparr> os_Stderr :=
             [''Rollbar error: buffer full, dropping error on the floor'' @ [CHR 0x0A]] \<rparr>)"
    by (simp add: e)
  from a b c d 1 2 show ?thesis by simp
qed

lemma post_empty_token:
  "Token s = [] \<Longrightarrow> post rt body s
      = s\<lparr> os_Stderr := os_Stderr s @ [''Rollbar error: empty token'' @ [CHR 0x0A]] \<rparr>"
  by (simp add: post_def stderr_def)

lemma post_frame:
  "waitGroup (post rt body s) = waitGroup s \<and> bodyChannel (post rt body s) = bodyChannel s
   \<and> Token (post rt body s) = Token s \<and> Buffer (post rt body s) = Buffer s
   \<and> chan_cap (post rt body s) = chan_cap s \<and> heap (post rt body s) = heap s"
  by (simp add: post_def stderr_def Let_def split: sum.split http_result.split)

lemma worker_step_Cons:
  assumes "bodyChannel s = body # rest" and "0 < waitGroup s"
  shows "worker_step rt s
           = Returned ((post rt body (s\<lparr> bodyChannel := rest \<rparr>))\<lparr> waitGroup := waitGroup s - 1 \<rparr>)"
proof -
  let ?p = "post rt body (s\<lparr> bodyChannel := rest \<rparr>)"
  from assms have pos: "0 < waitGroup ?p" by (simp add: post_frame)
  show ?thesis
    using assms(1) waitGroup_Done [OF pos] by (simp add: worker_step_def post_frame)
qed

lemma post_posts:
  "http_posts (post rt body s)
     = (if Token s = [] then http_posts s
        else case Marshal rt body of
               Inl err \<Rightarrow> http_posts s
             | Inr payload \<Rightarrow> http_posts s @ [(Endpoint s, payload)])"
  by (simp add: post_def stderr_def Let_def split: sum.split http_result.split)

text \<open>Every queued report has been counted: the invariant that keeps
  \<open>waitGroup.Done()\<close> from panicking in the worker.\<close>

lemma init_counted: "length (bodyChannel init) \<le> waitGroup init"
  by (simp add: init_def)

lemma push_counted:
  assumes "length (bodyChannel s) \<le> waitGroup s"
    and "push body s = Returned s' \<or> push body s = Blocked s'"
  shows "length (bodyChannel s') \<le> waitGroup s'"
  using assms
  by (auto simp: push_def waitGroup_Add_1 chan_send_def stderr_def split: if_splits)

lemma worker_step_counted:
  assumes "length (bodyChannel s) \<le> waitGroup s" and "worker_step rt s = Returned s'"
  shows "length (bodyChannel s') \<le> waitGroup s'"
proof (cases "bodyChannel s")
  case Nil
  with assms(2) show ?thesis by (simp add: worker_step_def)
next
  case (Cons body rest)
  with assms(1) have "0 < waitGroup s" by simp
  from worker_step_Cons [OF Cons this, of rt] assms Cons show ?thesis
    by (auto simp: post_frame)
qed

text \<open>
  Claim C6.  The worker takes the oldest report off a non-empty queue, and when it is done
  with it the counter of the wait group is one less, whatever \<open>Token\<close>, the encoder and
  the transport are.  With an empty \<open>Token\<close> no POST is made and the line
  \<open>empty token\<close> is written to standard error.  The counter is positive here because
  every queued report was counted by \<open>push\<close> before it was sent.
\<close>

theorem worker_step_decrements:
  assumes "bodyChannel s = body # rest" and "length (bodyChannel s) \<le> waitGroup s"
  shows "\<exists>s'. worker_step rt s = Returned s'
           \<and> bodyChannel s' = rest \<and> waitGroup s' = waitGroup s - 1
           \<and> (Token s = [] \<longrightarrow>
                http_posts s' = http_posts s
                \<and> os_Stderr s' = os_Stderr s @ [''Rollbar error: empty token'' @ [CHR 0x0A]])"
proof -
  let ?p = "post rt body (s\<lparr> bodyChannel := rest \<rparr>)"
  from assms have "0 < waitGroup s" by simp
  then have step: "worker_step rt s = Returned (?p\<lparr> waitGroup := waitGroup s - 1 \<rparr>)"
    by (rule worker_step_Cons [OF assms(1)])
  have "Token s = [] \<Longrightarrow> ?p = s\<lparr> bodyChannel := rest,
          os_Stderr := os_Stderr s @ [''Rollbar error: empty token'' @ [CHR 0x0A]] \<rparr>"
    by (simp add: post_empty_token)
  with step show ?thesis by (auto simp: post_frame)
qed


theorem worker_step_decrements_witness:
  "bodyChannel (init\<lparr> bodyChannel := [JString ''r''], waitGroup := 1 \<rparr>) = JString ''r'' # []
   \<and> length (bodyChannel (init\<lparr> bodyChannel := [JString ''r''], waitGroup := 1 \<rparr>))
        \<le> waitGroup (init\<lparr> bodyChannel := [JString ''r''], waitGroup := 1 \<rparr>)
   \<and> Token (init\<lparr> bodyChannel := [JString ''r''], waitGroup := 1 \<rparr>) = []
   \<and> (\<exists>s'. worker_step sample_Runtime (init\<lparr> bodyChannel := [JString ''r''], waitGroup := 1 \<rparr>) = Returned s'
         \<and> bodyChannel s' = [] \<and> waitGroup s' = 0 \<and> http_posts s' = []
         \<and> os_Stderr s' = [''Rollbar error: empty token'' @ [CHR 0x0A]])"
proof -
  let ?s = "init\<lparr> bodyChannel := [JString ''r''], waitGroup := 1 \<rparr>"
  have a: "bodyChannel ?s = JString ''r'' # []" by simp
  have b: "length (bodyChannel ?s) \<le> waitGroup ?s" by simp
  have c: "Token ?s = []" by (simp add: init_def)
  have d: "http_posts ?s = [] \<and> os_Stderr ?s = []" by (simp add: init_def)
  show ?thesis
    using a b c d worker_step_decrements [OF a b, of sample_Runtime]
    by auto
qed


section \<open>Reports\<close>


lemma data_of_buildBody:
  "data_of (buildBody rt s level title)
     = Some [(''environment'', JString (Environment s)),
             (''title'', JString title),
             (''level'', JString level),
             (''timestamp'', JInt (Now_Unix rt)),
             (''platform'', JString (GOOS rt)),
             (''language'', JString ''go''),
             (''server'', JMap [(''host'', JString (Hostname rt))]),
             (''notifier'', JMap [(''name'', JString NAME), (''version'', JString VERSION)])]"
  by (simp add: data_of_def buildBody_def)

lemma buildBody_access_token:
  "get_path [''access_token''] (buildBody rt s level title) = Some (JString (Token s))"
  by (simp add: buildBody_def)

lemma Message_report:
  "\<exists>body. Message rt level msg s = push body s
      \<and> get_path [''access_token''] body = Some (JString (Token s))
      \<and> get_path [''data'', ''title''] body = Some (JString msg)
      \<and> get_path [''data'', ''level''] body = Some (JString level)
      \<and> get_path [''data'', ''body'', ''message'', ''body''] body = Some (JString msg)"
proof -
  define body where "body =
     with_data (AList.update ''body'' (messageBody msg)
                  (the (data_of (buildBody rt s level msg)))) (buildBody rt s level msg)"
  have 1: "Message rt level msg s = push body s"
    by (simp add: Message_def body_def data_of_buildBody)
  have 2: "get_path [''access_token''] body = Some (JString (Token s))"
    unfolding body_def data_of_buildBody by (simp add: with_data_def buildBody_def)
  have 3: "get_path [''data'', ''title''] body = Some (JString msg)"
    unfolding body_def data_of_buildBody by (simp add: with_data_def buildBody_def)
  have 4: "get_path [''data'', ''level''] body = Some (JString level)"
    unfolding body_def data_of_buildBody by (simp add: with_data_def buildBody_def)
  have 5: "get_path [''data'', ''body'', ''message'', ''body''] body = Some (JString msg)"
    unfolding body_def data_of_buildBody by (simp add: with_data_def buildBody_def messageBody_def)
  from 1 2 3 4 5 show ?thesis by blast
qed

lemma data_of_buildBody_0_1_0:
  "data_of (buildBody_0_1_0 rt s level title)
     = Some [(''environment'', JString (Environment s)),
             (''title'', JString title),
             (''level'', JString level),
             (''timestamp'', JInt (Now_Unix rt)),
             (''platform'', JString (GOOS rt)),
             (''language'', JString ''go''),
             (''server'', JMap [(''host'', JString (Hostname rt))]),
             (''notifier'', JMap [(''name'', JString NAME),
                                  (''version'', JString VERSION_0_1_0)])]"
  by (simp add: data_of_def buildBody_0_1_0_def)

lemma Message_0_1_0_report:
  "\<exists>body. Message_0_1_0 rt level msg s = push body s
      \<and> get_path [''data'', ''title''] body = Some (JString (SplitN_2_first msg))
      \<and> get_path [''data'', ''notifier'', ''version''] body = Some (JString ''0.1.0'')
      \<and> get_path [''data'', ''body'', ''message'', ''body''] body = Some (JString msg)"
proof -
  define body where "body =
     with_data (AList.update ''body'' (messageBody msg)
                  (the (data_of (buildBody_0_1_0 rt s level (SplitN_2_first msg)))))
       (buildBody_0_1_0 rt s level (SplitN_2_first msg))"
  have 1: "Message_0_1_0 rt level msg s = push body s"
    by (simp add: Message_0_1_0_def body_def data_of_buildBody_0_1_0)
  have 3: "get_path [''data'', ''title''] body = Some (JString (SplitN_2_first msg))"
    unfolding body_def data_of_buildBody_0_1_0
    by (simp add: with_data_def buildBody_0_1_0_def)
  have 4: "get_path [''data'', ''notifier'', ''version''] body = Some (JString ''0.1.0'')"
    unfolding body_def data_of_buildBody_0_1_0
    by (simp add: with_data_def buildBody_0_1_0_def VERSION_0_1_0_def)
  have 5: "get_path [''data'', ''body'', ''message'', ''body''] body = Some (JString msg)"
    unfolding body_def data_of_buildBody_0_1_0
    by (simp add: with_data_def buildBody_0_1_0_def messageBody_def)
  from 1 3 4 5 show ?thesis by blast
qed

lemma ErrorWithStackSkip_report:
  "\<exists>body. ErrorWithStackSkip rt level err skip s = push body s
      \<and> get_path [''access_token''] body = Some (JString (Token s))
      \<and> get_path [''data'', ''title''] body = Some (JString (Error_text err))
      \<and> get_path [''data'', ''body'', ''trace'', ''exception'', ''message''] body
           = Some (JString (Error_text err))
      \<and> get_path [''data'', ''body'', ''trace'', ''exception'', ''class''] body
           = Some (JString (errorClass err))
      \<and> get_path [''data'', ''body'', ''trace'', ''frames''] body
           = Some (JFrames (BuildStack rt (3 + skip)))
      \<and> get_path [''data'', ''fingerprint''] body
           = Some (JString (Fingerprint (BuildStack rt (3 + skip))))"
proof -
  define body where "body =
     with_data (AList.update ''fingerprint'' (JString (snd (errorBody rt err skip)))
                 (AList.update ''body'' (fst (errorBody rt err skip))
                    (the (data_of (buildBody rt s level (Error_text err))))))
       (buildBody rt s level (Error_text err))"
  have 1: "ErrorWithStackSkip rt level err skip s = push body s"
    by (simp add: ErrorWithStackSkip_def body_def data_of_buildBody split_def Let_def)
  have 2: "get_path [''access_token''] body = Some (JString (Token s))"
    unfolding body_def data_of_buildBody by (simp add: with_data_def buildBody_def)
  have 3: "get_path [''data'', ''title''] body = Some (JString (Error_text err))"
    unfolding body_def data_of_buildBody by (simp add: with_data_def buildBody_def)
  have 4: "get_path [''data'', ''body'', ''trace'', ''exception'', ''message''] body
           = Some (JString (Error_text err))"
    unfolding body_def data_of_buildBody by (simp add: with_data_def buildBody_def errorBody_def Let_def)
  have 5: "get_path [''data'', ''body'', ''trace'', ''exception'', ''class''] body
           = Some (JString (errorClass err))"
    unfolding body_def data_of_buildBody by (simp add: with_data_def buildBody_def errorBody_def Let_def)
  have 6: "get_path [''data'', ''body'', ''trace'', ''frames''] body
           = Some (JFrames (BuildStack rt (3 + skip)))"
    unfolding body_def data_of_buildBody by (simp add: with_data_def buildBody_def errorBody_def Let_def)
  have 7: "get_path [''data'', ''fingerprint''] body
           = Some (JString (Fingerprint (BuildStack rt (3 + skip))))"
    unfolding body_def data_of_buildBody by (simp add: with_data_def buildBody_def errorBody_def Let_def)
  from 1 2 3 4 5 6 7 show ?thesis by blast
qed

lemma SplitN_2_first_hello: "SplitN_2_first (''hello'' @ [CHR 0x0A] @ ''world'') = ''hello''"
  by (simp add: SplitN_2_first_def)

text \<open>
  Claim C2, at its own example.  \<open>Message("info", "hello\nworld")\<close> hands \<open>push\<close> a
  report whose title is the whole text, newline and \<open>world\<close> included, not \<open>hello\<close>;
  the body of the message is the whole text as well.  (\<open>Message_0_1_0_report\<close> and
  \<open>SplitN_2_first_hello\<close> show the earlier copy of the function giving \<open>hello\<close>.)
\<close>

theorem Message_title_whole_text:
  "\<exists>body. Message rt ''info'' (''hello'' @ [CHR 0x0A] @ ''world'') s = push body s
      \<and> get_path [''data'', ''title''] body = Some (JString (''hello'' @ [CHR 0x0A] @ ''world''))
      \<and> get_path [''data'', ''title''] body \<noteq> Some (JString ''hello'')
      \<and> get_path [''data'', ''body'', ''message'', ''body''] body
           = Some (JString (''hello'' @ [CHR 0x0A] @ ''world''))"
proof -
  from Message_report [of rt "''info''" "''hello'' @ [CHR 0x0A] @ ''world''" s]
  obtain body where "Message rt ''info'' (''hello'' @ [CHR 0x0A] @ ''world'') s = push body s"
    and "get_path [''data'', ''title''] body = Some (JString (''hello'' @ [CHR 0x0A] @ ''world''))"
    and "get_path [''data'', ''body'', ''message'', ''body''] body
           = Some (JString (''hello'' @ [CHR 0x0A] @ ''world''))"
    by blast
  then show ?thesis by auto
qed

text \<open>
  Claim C10.  The \<open>access_token\<close> of a report is the \<open>Token\<close> of the moment the report
  is built, and the worker decides on the \<open>Token\<close> of the moment it delivers.  A report
  queued by \<open>Message\<close> on an empty queue carries the \<open>Token\<close> of that state; if \<open>Token\<close>
  is \<open>t\<close> when the worker takes the report, the worker posts it exactly when \<open>t\<close> is not
  empty, with the payload encoded from the report as built.  So a report built under an
  empty \<open>Token\<close> is posted with an empty \<open>access_token\<close> once \<open>Token\<close> has been set.
\<close>

theorem access_token_read_when_built:
  assumes "bodyChannel s = []" and "0 < Buffer s" and "0 < chan_cap s"
  shows "\<exists>body s1. Message rt level msg s = Returned s1 \<and> bodyChannel s1 = [body]
           \<and> get_path [''access_token''] body = Some (JString (Token s))
           \<and> (\<forall>t payload. Marshal rt body = Inr payload \<longrightarrow>
                 (\<exists>s2. worker_step rt (s1\<lparr> Token := t \<rparr>) = Returned s2
                    \<and> http_posts s2 = (if t = [] then http_posts s
                                        else http_posts s @ [(Endpoint s, payload)])))"
proof -
  from Message_report [of rt level msg s] obtain body
    where m: "Message rt level msg s = push body s"
      and tok: "get_path [''access_token''] body = Some (JString (Token s))" by blast
  let ?s1 = "s\<lparr> waitGroup := waitGroup s + 1, bodyChannel := bodyChannel s @ [body] \<rparr>"
  have p: "push body s = Returned ?s1"
    using assms by (intro push_accepts) simp_all
  have w: "\<exists>s2. worker_step rt (?s1\<lparr> Token := t \<rparr>) = Returned s2
              \<and> http_posts s2 = (if t = [] then http_posts s
                                  else http_posts s @ [(Endpoint s, payload)])"
    if "Marshal rt body = Inr payload" for t payload
    using that assms(1)
    by (simp add: worker_step_def waitGroup_Add_def post_frame post_posts)
  from m p tok w assms(1) show ?thesis by auto
qed

theorem access_token_read_when_built_witness:
  "bodyChannel init = [] \<and> 0 < Buffer init \<and> 0 < chan_cap init \<and> Token init = []
   \<and> (\<exists>body s1 s2. Message sample_Runtime ''info'' ''hi'' init = Returned s1
         \<and> bodyChannel s1 = [body]
         \<and> get_path [''access_token''] body = Some (JString [])
         \<and> Marshal sample_Runtime body = Inr ''{}''
         \<and> worker_step sample_Runtime (s1\<lparr> Token := ''abc'' \<rparr>) = Returned s2
         \<and> http_posts s2 = [(''https://api.rollbar.com/api/1/item/'', ''{}'')])"
proof -
  have a: "bodyChannel init = []" by (simp add: init_def)
  have b: "0 < Buffer init" by (simp add: init_def)
  have c: "0 < chan_cap init" by (simp add: init_def)
  have d: "Token init = [] \<and> http_posts init = []
           \<and> Endpoint init = ''https://api.rollbar.com/api/1/item/''"
    by (simp add: init_def)
  have e: "Marshal sample_Runtime body = Inr ''{}''" for body
    by (simp add: sample_Runtime_def)
  from access_token_read_when_built [OF a b c, of sample_Runtime "''info''" "''hi''"]
  obtain body s1 where 1: "Message sample_Runtime ''info'' ''hi'' init = Returned s1"
    and 2: "bodyChannel s1 = [body]"
    and 3: "get_path [''access_token''] body = Some (JString (Token init))"
    and 4: "\<forall>t payload. Marshal sample_Runtime body = Inr payload \<longrightarrow>
                 (\<exists>s2. worker_step sample_Runtime (s1\<lparr> Token := t \<rparr>) = Returned s2
                    \<and> http_posts s2 = (if t = [] then http_posts init
                                        else http_posts init @ [(Endpoint init, payload)]))"
    by blast
  from 4 e [of body] obtain s2
    where 5: "worker_step sample_Runtime (s1\<lparr> Token := ''abc'' \<rparr>) = Returned s2"
      and 6: "http_posts s2 = (if ''abc'' = [] then http_posts init
                                        else http_posts init @ [(Endpoint init, ''{}'')])"
    by blast
  from 6 d have 7: "http_posts s2 = [(''https://api.rollbar.com/api/1/item/'', ''{}'')]"
    by simp
  from a b c d 1 2 3 e [of body] 5 7 show ?thesis by auto
qed

lemma SplitN_2_first_no_newline: "CHR 0x0A \<notin> set (SplitN_2_first s)"
proof (cases "Index s [CHR 0x0A] = - 1")
  case True
  then have "\<not> sublist [CHR 0x0A] s" by (simp add: Index_none_iff)
  then have "CHR 0x0A \<notin> set s"
    by (metis append_Cons append_Nil in_set_conv_decomp sublist_appendI)
  with True show ?thesis by (simp add: SplitN_2_first_def)
next
  case False
  let ?i = "nat (Index s [CHR 0x0A])"
  have "CHR 0x0A \<notin> set (take ?i s)"
  proof
    assume "CHR 0x0A \<in> set (take ?i s)"
    then obtain ys zs where t: "take ?i s = ys @ CHR 0x0A # zs"
      by (auto simp: in_set_conv_decomp)
    have "s = ys @ [CHR 0x0A] @ (zs @ drop ?i s)"
      using t append_take_drop_id [of ?i s] by (metis append.assoc append_Cons append_Nil)
    from Index_le_occurrence [OF this] have "?i \<le> length ys" by simp
    moreover have "length (take ?i s) \<le> ?i" by simp
    ultimately show False using t by simp
  qed
  with False show ?thesis by (simp add: SplitN_2_first_def)
qed

lemma SplitN_2_first_prefix:
  "SplitN_2_first s = s \<or> prefix (SplitN_2_first s @ [CHR 0x0A]) s"
proof (cases "Index s [CHR 0x0A] = - 1")
  case True
  then show ?thesis by (simp add: SplitN_2_first_def)
next
  case False
  from Index_decompose [OF False] obtain suf
    where "s = take (nat (Index s [CHR 0x0A])) s @ [CHR 0x0A] @ suf" by blast
  then have "prefix (take (nat (Index s [CHR 0x0A])) s @ [CHR 0x0A]) s"
    by (metis append.assoc prefixI)
  with False show ?thesis by (simp add: SplitN_2_first_def)
qed


section \<open>Redaction\<close>


lemma filterParams_loop_map_of:
  "map_of (filterParams_loop match keys vals) k
     = (if k \<in> set keys \<and> match k then Some [FILTERED] else map_of vals k)"
  unfolding filterParams_loop_def
  by (induction keys arbitrary: vals) (auto simp: update_conv')

lemma filterParams_loop_keys:
  "set keys \<subseteq> set (map fst vals) \<Longrightarrow>
     map fst (filterParams_loop match keys vals) = map fst vals"
  unfolding filterParams_loop_def
proof (induction keys arbitrary: vals)
  case Nil
  then show ?case by simp
next
  case (Cons key keys)
  let ?vals' = "if match key then AList.update key [FILTERED] vals else vals"
  from Cons.prems have "key \<in> set (map fst vals)" by simp
  then have k: "map fst ?vals' = map fst vals" by (simp add: update_keys)
  with Cons.prems have "set keys \<subseteq> set (map fst ?vals')" by simp
  from Cons.IH [OF this] k show ?case by simp
qed

lemma redacted_lookup:
  "map_of (filterParams_loop match (map fst vals) vals) k
     = (case map_of vals k of
          None \<Rightarrow> None
        | Some v \<Rightarrow> if match k then Some [FILTERED] else Some v)"
proof (cases "map_of vals k")
  case None
  then have "k \<notin> fst ` set vals" by (simp add: map_of_eq_None_iff)
  with None show ?thesis by (simp add: filterParams_loop_map_of)
next
  case (Some v)
  then have "k \<in> fst ` set vals" using map_of_eq_None_iff [of vals k] by auto
  with Some show ?thesis by (simp add: filterParams_loop_map_of)
qed


lemma filterParams_heap:
  "heap (snd (filterParams (Some a) s))
     = (heap s)(a := filterParams_loop (FilterFields s) (map fst (heap s a)) (heap s a))"
  by (simp add: filterParams_def)

lemma filterParams_frame:
  "FilterFields (snd (filterParams vals s)) = FilterFields s
   \<and> heap_next (snd (filterParams vals s)) = heap_next s
   \<and> bodyChannel (snd (filterParams vals s)) = bodyChannel s
   \<and> waitGroup (snd (filterParams vals s)) = waitGroup s"
  by (simp add: filterParams_def split: option.split)

text \<open>
  Claim C3, as stated, has the mixed-case key \<open>Secret\<close> matched.  Under the default
  pattern \<open>filterParams\<close> leaves the values of that key as they are: the pattern is
  \<open>password|secret|token\<close> and matching does not fold case.
\<close>

theorem filterParams_Secret_unchanged:
  "heap (snd (filterParams (Some 0) (init\<lparr> heap := (heap init)(0 := [(''Secret'', [''abc''])]) \<rparr>))) 0
     = [(''Secret'', [''abc''])]"
  by (simp add: filterParams_def filterParams_loop_def init_def FilterFields_default_def)

text \<open>
  Claim C3, amended.  After \<open>filterParams\<close> every key of the map in which the pattern
  \<open>FilterFields\<close> matches, compared byte for byte, holds the one-element sequence
  \<open>[FILTERED]\<close>, and every other key holds what it held; the keys are the same.  With the
  default pattern, \<open>{password: [abc], username: [bob]}\<close> becomes
  \<open>{password: [[FILTERED]], username: [bob]}\<close>, and the default pattern does not match
  the key \<open>Secret\<close>.
\<close>

theorem filterParams_redacts:
  "map_of (heap (snd (filterParams (Some a) s)) a) key
     = (case map_of (heap s a) key of
          None \<Rightarrow> None
        | Some v \<Rightarrow> if FilterFields s key then Some [''[FILTERED]''] else Some v)
   \<and> map fst (heap (snd (filterParams (Some a) s)) a) = map fst (heap s a)
   \<and> heap (snd (filterParams (Some 0)
              (init\<lparr> heap := (heap init)(0 := [(''password'', [''abc'']), (''username'', [''bob''])]) \<rparr>))) 0
        = [(''password'', [''[FILTERED]'']), (''username'', [''bob''])]
   \<and> \<not> FilterFields init ''Secret''"
proof -
  have 1: "map_of (heap (snd (filterParams (Some a) s)) a) key
     = (case map_of (heap s a) key of
          None \<Rightarrow> None
        | Some v \<Rightarrow> if FilterFields s key then Some [''[FILTERED]''] else Some v)"
    using redacted_lookup [of "FilterFields s" "heap s a" key]
    unfolding FILTERED_def by (simp add: filterParams_heap)
  have 2: "map fst (heap (snd (filterParams (Some a) s)) a) = map fst (heap s a)"
    by (simp add: filterParams_heap filterParams_loop_keys)
  have 3: "heap (snd (filterParams (Some 0)
              (init\<lparr> heap := (heap init)(0 := [(''password'', [''abc'']), (''username'', [''bob''])]) \<rparr>))) 0
        = [(''password'', [''[FILTERED]'']), (''username'', [''bob''])]"
    by (simp add: filterParams_def filterParams_loop_def init_def FilterFields_default_def
        FILTERED_def)
  have 4: "\<not> FilterFields init ''Secret''"
    by (simp add: init_def FilterFields_default_def)
  from 1 2 3 4 show ?thesis by blast
qed

lemma push_heap:
  "\<exists>s'. push body s \<in> {Returned s', Blocked s'} \<and> heap s' = heap s"
  by (simp add: push_def waitGroup_Add_1 chan_send_def stderr_def)

lemma errorRequest_heap:
  assumes "Form r = Some a" and "a < heap_next s"
  shows "heap (snd (errorRequest rt r s)) a
           = filterParams_loop (FilterFields s) (map fst (heap s a)) (heap s a)"
  using assms
  by (simp add: errorRequest_def URL_Query_new_def filterParams_def Let_def split_def)

text \<open>
  Claim C9.  \<open>filterParams\<close> returns the reference it was given and redacts the map
  behind it; and after \<open>RequestError\<close> (whether its \<open>push\<close> returned or is waiting on
  the channel) the map that \<open>r.Form\<close> refers to has \<open>[FILTERED]\<close> under every key the
  pattern matches and is otherwise as the caller left it.  The form map is an object
  allocated before the call.
\<close>

theorem filterParams_in_place:
  assumes "Form r = Some a" and "a < heap_next s"
  shows "fst (filterParams (Some a) s) = Some a
       \<and> map_of (heap (snd (filterParams (Some a) s)) a) key
           = (case map_of (heap s a) key of
                None \<Rightarrow> None
              | Some v \<Rightarrow> if FilterFields s key then Some [''[FILTERED]''] else Some v)
       \<and> (\<exists>s'. RequestError rt level r err s \<in> {Returned s', Blocked s'}
             \<and> map_of (heap s' a) key
                 = (case map_of (heap s a) key of
                      None \<Rightarrow> None
                    | Some v \<Rightarrow> if FilterFields s key then Some [''[FILTERED]''] else Some v))"
proof -
  have 1: "fst (filterParams (Some a) s) = Some a" by (simp add: filterParams_def)
  have 2: "map_of (heap (snd (filterParams (Some a) s)) a) key
     = (case map_of (heap s a) key of
          None \<Rightarrow> None
        | Some v \<Rightarrow> if FilterFields s key then Some [''[FILTERED]''] else Some v)"
    using redacted_lookup [of "FilterFields s" "heap s a" key]
    unfolding FILTERED_def by (simp add: filterParams_heap)
  obtain body where b: "RequestError rt level r err s = push body (snd (errorRequest rt r s))"
    by (simp add: RequestError_def RequestErrorWithStackSkip_def data_of_buildBody
        split_def Let_def)
  from push_heap [of body "snd (errorRequest rt r s)"] obtain s'
    where p: "push body (snd (errorRequest rt r s)) \<in> {Returned s', Blocked s'}"
      and h: "heap s' = heap (snd (errorRequest rt r s))" by blast
  have "map_of (heap s' a) key
     = (case map_of (heap s a) key of
          None \<Rightarrow> None
        | Some v \<Rightarrow> if FilterFields s key then Some [''[FILTERED]''] else Some v)"
    using redacted_lookup [of "FilterFields s" "heap s a" key]
    unfolding FILTERED_def by (simp add: h errorRequest_heap [OF assms] FILTERED_def)
  with b p 1 2 show ?thesis by auto
qed

theorem filterParams_in_place_witness:
  "Form sample_Request = Some 0
   \<and> 0 < heap_next (init\<lparr> heap := (heap init)(0 := [(''password'', [''abc''])]), heap_next := 1 \<rparr>)
   \<and> fst (filterParams (Some 0)
              (init\<lparr> heap := (heap init)(0 := [(''password'', [''abc''])]), heap_next := 1 \<rparr>)) = Some 0
   \<and> (\<exists>s'. RequestError sample_Runtime ''error'' sample_Request sample_error
                (init\<lparr> heap := (heap init)(0 := [(''password'', [''abc''])]), heap_next := 1 \<rparr>)
              \<in> {Returned s', Blocked s'}
            \<and> map_of (heap s' 0) ''password'' = Some [''[FILTERED]''])"
proof -
  let ?s = "init\<lparr> heap := (heap init)(0 := [(''password'', [''abc''])]), heap_next := 1 \<rparr>"
  have a: "Form sample_Request = Some 0" by (simp add: sample_Request_def)
  have b: "0 < heap_next ?s" by simp
  have c: "map_of (heap ?s 0) ''password'' = Some [''abc'']" by simp
  have d: "FilterFields ?s ''password''" by (simp add: init_def FilterFields_default_def)
  from filterParams_in_place [OF a b, of "''password''" sample_Runtime "''error''" sample_error]
  show ?thesis using a b c d by auto
qed


section \<open>Checksums, the exception class and the fingerprint\<close>


lemma hexdigit_cases:
  assumes "d < 16"
  shows "d = 0 \<or> d = 1 \<or> d = 2 \<or> d = 3 \<or> d = 4 \<or> d = 5 \<or> d = 6 \<or> d = 7
       \<or> d = 8 \<or> d = 9 \<or> d = 10 \<or> d = 11 \<or> d = 12 \<or> d = 13 \<or> d = 14 \<or> d = (15::nat)"
  using assms by arith

lemma hexval_hexdigit: "d < 16 \<Longrightarrow> hexval (hexdigit d) = d"
  using hexdigit_cases [of d] by (auto simp: hexdigit_def hexval_def)

lemma hexdigit_lower: "d < 16 \<Longrightarrow> hexdigit d \<in> set ''0123456789abcdef''"
  unfolding hexdigit_def by (rule nth_mem) simp

lemma parse_hex_snoc: "parse_hex (cs @ [c]) = 16 * parse_hex cs + hexval c"
  by (simp add: parse_hex_def)

lemma parse_hex_fmt_x: "parse_hex (fmt_x n) = n"
proof (induction n rule: fmt_x.induct)
  case (1 n)
  show ?case
  proof (cases "n < 16")
    case True
    then show ?thesis
      by (subst fmt_x.simps) (simp add: parse_hex_def hexval_hexdigit)
  next
    case False
    with 1 have "parse_hex (fmt_x (n div 16)) = n div 16" by simp
    with False show ?thesis
      by (subst fmt_x.simps) (simp add: parse_hex_snoc hexval_hexdigit)
  qed
qed

lemma fmt_x_lower: "set (fmt_x n) \<subseteq> set ''0123456789abcdef''"
proof (induction n rule: fmt_x.induct)
  case (1 n)
  have d: "hexdigit (n mod 16) \<in> set ''0123456789abcdef''" by (rule hexdigit_lower) simp
  show ?case
  proof (cases "n < 16")
    case True
    with d show ?thesis by (subst fmt_x.simps) simp
  next
    case False
    with 1 have "set (fmt_x (n div 16)) \<subseteq> set ''0123456789abcdef''" by simp
    with False d show ?thesis by (subst fmt_x.simps) simp
  qed
qed

lemma fmt_x_nonempty: "fmt_x n \<noteq> []"
  by (subst fmt_x.simps) simp

lemma length_fmt_x_fixed: "length (fmt_x_fixed k n) = k"
  by (induction k arbitrary: n) simp_all

lemma parse_hex_fmt_x_fixed: "parse_hex (fmt_x_fixed k n) = n mod 16 ^ k"
proof (induction k arbitrary: n)
  case 0
  then show ?case by (simp add: parse_hex_def)
next
  case (Suc k)
  have "n mod (16 * 16 ^ k) = 16 * (n div 16 mod 16 ^ k) + n mod 16"
    by (rule mod_mult2_eq)
  with Suc show ?case by (simp add: parse_hex_snoc hexval_hexdigit)
qed

lemma fmt_x_fixed_lower: "set (fmt_x_fixed k n) \<subseteq> set ''0123456789abcdef''"
proof (induction k arbitrary: n)
  case 0
  then show ?case by simp
next
  case (Suc k)
  have d: "hexdigit (n mod 16) \<in> set ''0123456789abcdef''" by (rule hexdigit_lower) simp
  from Suc [of "n div 16"] d show ?case by simp
qed

lemma parse_hex_Fingerprint:
  "parse_hex (Fingerprint stack) = unat (adler32_Checksum (concat (map frame_text stack)))"
proof -
  have "unat (adler32_Checksum (concat (map frame_text stack))) < 2 ^ 32"
    using unsigned_less [of "adler32_Checksum (concat (map frame_text stack))", where ?'a = nat]
    by simp
  then show ?thesis by (simp add: Fingerprint_def parse_hex_fmt_x_fixed)
qed

lemma Fingerprint_instance: "Fingerprint stack = Fingerprint_with adler32_Checksum stack"
  by (simp add: Fingerprint_def Fingerprint_with_def)














text \<open>
  Claim C7.  The exception class of an error: \<open>panic\<close> when the string of its type is
  empty; for an \<open>*errors.errorString\<close> (what \<open>errors.New\<close> and \<open>fmt.Errorf\<close> give), an
  opening brace, the Adler-32 checksum of the message in lowercase hexadecimal, and a
  closing brace, so that two such errors with the same message get the same class;
  otherwise the string of the type, without the \<open>*\<close> it may begin with.  The fingerprint
  denotes an Adler-32 checksum as well.
\<close>

theorem errorClass_label:
  "(TypeOf_String err = [] \<longrightarrow> errorClass err = ''panic'')
   \<and> (TypeOf_String err = ''*errors.errorString'' \<longrightarrow>
        (\<exists>digits. errorClass err = ''{'' @ digits @ ''}'' \<and> digits \<noteq> []
           \<and> set digits \<subseteq> set ''0123456789abcdef''
           \<and> parse_hex digits = unat (adler32_Checksum (Error_text err))))
   \<and> (TypeOf_String err \<noteq> [] \<and> TypeOf_String err \<noteq> ''*errors.errorString'' \<longrightarrow>
        (if prefix ''*'' (TypeOf_String err) then TypeOf_String err = ''*'' @ errorClass err
         else errorClass err = TypeOf_String err))
   \<and> (TypeOf_String err = ''*errors.errorString'' \<and> TypeOf_String err' = ''*errors.errorString''
        \<and> Error_text err = Error_text err' \<longrightarrow> errorClass err = errorClass err')
   \<and> parse_hex (Fingerprint stack) = unat (adler32_Checksum (concat (map frame_text stack)))"
proof -
  have 1: "TypeOf_String err = [] \<longrightarrow> errorClass err = ''panic''"
    by (simp add: errorClass_def)
  have 2: "TypeOf_String err = ''*errors.errorString'' \<longrightarrow>
        (\<exists>digits. errorClass err = ''{'' @ digits @ ''}'' \<and> digits \<noteq> []
           \<and> set digits \<subseteq> set ''0123456789abcdef''
           \<and> parse_hex digits = unat (adler32_Checksum (Error_text err)))"
  proof
    assume t: "TypeOf_String err = ''*errors.errorString''"
    let ?d = "fmt_x (unat (adler32_Checksum (Error_text err)))"
    from t have "errorClass err = ''{'' @ ?d @ ''}''" by (simp add: errorClass_def)
    moreover have "?d \<noteq> []" by (rule fmt_x_nonempty)
    moreover have "set ?d \<subseteq> set ''0123456789abcdef''" by (rule fmt_x_lower)
    moreover have "parse_hex ?d = unat (adler32_Checksum (Error_text err))"
      by (rule parse_hex_fmt_x)
    ultimately show "\<exists>digits. errorClass err = ''{'' @ digits @ ''}'' \<and> digits \<noteq> []
           \<and> set digits \<subseteq> set ''0123456789abcdef''
           \<and> parse_hex digits = unat (adler32_Checksum (Error_text err))" by blast
  qed
  have 3: "TypeOf_String err \<noteq> [] \<and> TypeOf_String err \<noteq> ''*errors.errorString'' \<longrightarrow>
        (if prefix ''*'' (TypeOf_String err) then TypeOf_String err = ''*'' @ errorClass err
         else errorClass err = TypeOf_String err)"
    by (auto simp: errorClass_def TrimPrefix_def prefix_def)
  have 4: "TypeOf_String err = ''*errors.errorString'' \<and> TypeOf_String err' = ''*errors.errorString''
        \<and> Error_text err = Error_text err' \<longrightarrow> errorClass err = errorClass err'"
    by (simp add: errorClass_def)
  from 1 2 3 4 parse_hex_Fingerprint [of stack] show ?thesis by blast
qed


theorem errorClass_label_witness:
  "TypeOf_String \<lparr> TypeOf_String = [], Error_text = ''boom'' \<rparr> = []
   \<and> errorClass \<lparr> TypeOf_String = [], Error_text = ''boom'' \<rparr> = ''panic''
   \<and> TypeOf_String sample_error = ''*errors.errorString''
   \<and> (\<exists>digits. errorClass sample_error = ''{'' @ digits @ ''}''
         \<and> parse_hex digits = unat (adler32_Checksum ''boom''))
   \<and> TypeOf_String \<lparr> TypeOf_String = ''*os.PathError'', Error_text = ''boom'' \<rparr> \<noteq> []
   \<and> TypeOf_String \<lparr> TypeOf_String = ''*os.PathError'', Error_text = ''boom'' \<rparr>
        \<noteq> ''*errors.errorString''
   \<and> errorClass \<lparr> TypeOf_String = ''*os.PathError'', Error_text = ''boom'' \<rparr> = ''os.PathError''"
proof -
  let ?e1 = "\<lparr> TypeOf_String = [], Error_text = ''boom'' \<rparr>"
  let ?e3 = "\<lparr> TypeOf_String = ''*os.PathError'', Error_text = ''boom'' \<rparr>"
  have a: "TypeOf_String ?e1 = []" by simp
  have b: "TypeOf_String sample_error = ''*errors.errorString''
           \<and> Error_text sample_error = ''boom''"
    by (simp add: sample_error_def)
  have c: "TypeOf_String ?e3 \<noteq> [] \<and> TypeOf_String ?e3 \<noteq> ''*errors.errorString''
           \<and> prefix ''*'' (TypeOf_String ?e3)" by simp
  have 1: "errorClass ?e1 = ''panic''"
    using a errorClass_label [of ?e1 ?e1 "[]"] by blast
  from b errorClass_label [of sample_error sample_error "[]"]
  obtain digits where "errorClass sample_error = ''{'' @ digits @ ''}''"
    and "parse_hex digits = unat (adler32_Checksum (Error_text sample_error))"
    by blast
  with b have 2: "\<exists>digits. errorClass sample_error = ''{'' @ digits @ ''}''
         \<and> parse_hex digits = unat (adler32_Checksum ''boom'')"
    by auto
  have "TypeOf_String ?e3 = ''*'' @ errorClass ?e3"
    using c errorClass_label [of ?e3 ?e3 "[]"] by presburger
  then have 3: "errorClass ?e3 = ''os.PathError''" by simp
  from a b c 1 2 3 show ?thesis by blast
qed




end
